theory Spec2Isabelle
  imports Main "HOL-Library.Word"
begin

unbundle bit_operations_syntax

section \<open>LCD driver (lcd.c)\<close>

subsection \<open>Machine types\<close>

text \<open>
  The target is an 8-bit AVR (ATmega169) compiled with avr-gcc: \<open>char\<close> and
  \<open>unsigned char\<close> are 8 bits, \<open>int\<close> and \<open>unsigned int\<close> are 16 bits.
\<close>

type_synonym u8 = "8 word"
type_synonym u16 = "16 word"

text \<open>
  Plain \<open>char\<close> is signed under avr-gcc. A \<open>char\<close> operand of a comparison or of an
  arithmetic operator is promoted to \<open>int\<close>; \<open>char_int\<close> is that promotion.
\<close>

definition char_int :: "u8 \<Rightarrow> int" where
  "char_int c = sint c"

text \<open>C's \<open>/\<close> and \<open>%\<close> on \<open>int\<close> truncate towards zero.\<close>

definition c_div :: "int \<Rightarrow> int \<Rightarrow> int" where
  "c_div a b = sgn a * sgn b * (\<bar>a\<bar> div \<bar>b\<bar>)"

definition c_mod :: "int \<Rightarrow> int \<Rightarrow> int" where
  "c_mod a b = a - b * c_div a b"

subsection \<open>Errors\<close>

text \<open>
  \<open>eErrorType\<close> is declared in errors.h; these are the enumerators lcd.c uses. A function
  returning \<open>eErrorType\<close> and filling out-parameters is modelled as a sum: \<open>Inr\<close> carries
  the out-parameters of a \<open>NO_ERROR\<close> return, \<open>Inl\<close> the error code of any other return
  (the out-parameters are then left unwritten).
\<close>

datatype eErrorType = NO_ERROR | LCD_INVALID_CHAR | LCD_INVALID_POS

subsection \<open>The register bank\<close>

text \<open>The LCD data registers that lcd.c names.\<close>

datatype lcdreg =
    LCDDR0 | LCDDR1 | LCDDR2 | LCDDR3
  | LCDDR5 | LCDDR6 | LCDDR7 | LCDDR8
  | LCDDR10 | LCDDR11 | LCDDR12 | LCDDR13
  | LCDDR15 | LCDDR16 | LCDDR17

text \<open>
  The state \<open>LCDWrite\<close> acts on: the contents of the memory-mapped data registers, and the
  errors handed to \<open>ReportError\<close> so far, oldest first.
\<close>

record lcd_state =
  regs :: "lcdreg \<Rightarrow> u8"
  reported :: "eErrorType list"

text \<open>
  Modelled from the spec: \<open>ReportError\<close> (errors.h) is not part of the sources at hand. The
  spec describes it as a sink that receives the error classification and has no return
  channel into the engine; the model records the code and leaves the registers alone.
\<close>

definition ReportError :: "eErrorType \<Rightarrow> lcd_state \<Rightarrow> lcd_state" where
  "ReportError error s = s\<lparr>reported := reported s @ [error]\<rparr>"

subsection \<open>Segment table\<close>

definition NumberSegments :: "u16 list" where
  "NumberSegments =
     [0x1551, 0x0110, 0x1E11, 0x1B11, 0x0B50, 0x1B41, 0x1F40, 0x0111, 0x1F51, 0x0B51]"

text \<open>
  \<open>GetLCDDRValues\<close>: the four out-parameters \<open>LCDDRx\<close>, \<open>LCDDRx5\<close>, \<open>LCDDRx10\<close>,
  \<open>LCDDRx15\<close> in that order. The table word is an \<open>unsigned int\<close>; storing the masked and
  shifted word into a \<open>char\<close> keeps its low byte (\<open>ucast\<close>). The index
  \<open>LCDChar - '0'\<close> is only used inside the range test, where it is in 0..9.
\<close>

definition GetLCDDRValues :: "u8 \<Rightarrow> eErrorType + (u8 \<times> u8 \<times> u8 \<times> u8)" where
  "GetLCDDRValues LCDChar =
     (let index = char_int LCDChar - char_int 0x30 in
      if char_int LCDChar \<ge> char_int 0x30 \<and> char_int LCDChar \<le> char_int 0x39 then
        Inr (ucast ((NumberSegments ! nat index) AND 0x000F),
             ucast (drop_bit 4 ((NumberSegments ! nat index) AND 0x00F0)),
             ucast (drop_bit 8 ((NumberSegments ! nat index) AND 0x0F00)),
             ucast (drop_bit 12 ((NumberSegments ! nat index) AND 0xF000)))
      else if LCDChar = 0x20 then
        Inr (0x00, 0x00, 0x00, 0x00)
      else
        Inl LCD_INVALID_CHAR)"

subsection \<open>Position resolver\<close>

text \<open>
  \<open>GetLCDDRx\<close>: the out-parameters \<open>LCDDRx\<close> and \<open>Nibble\<close>. The arithmetic is done in
  \<open>int\<close> and the result stored into a \<open>char\<close>.
\<close>

definition GetLCDDRx :: "u8 \<Rightarrow> eErrorType + (u8 \<times> u8)" where
  "GetLCDDRx CharPosition =
     (if char_int CharPosition \<ge> 2 \<and> char_int CharPosition \<le> 7 then
        Inr (word_of_int (c_div (char_int CharPosition) 2 - 1),
             word_of_int (c_mod (char_int CharPosition) 2))
      else
        Inl LCD_INVALID_POS)"

subsection \<open>Register update engine\<close>

text \<open>
  One read-modify-write of a data register, as in
  \<open>LCDDR0 = (LCDDR0 & 0xF0) | LCDDRxValue\<close>: the operands are promoted to \<open>int\<close> and the
  result is truncated to the register's 8 bits, which is the same as computing on the low
  bytes.
\<close>

definition write_low :: "lcdreg \<Rightarrow> u8 \<Rightarrow> lcd_state \<Rightarrow> lcd_state" where
  "write_low r v s = s\<lparr>regs := (regs s)(r := (regs s r AND 0xF0) OR v)\<rparr>"

definition write_high :: "lcdreg \<Rightarrow> u8 \<Rightarrow> lcd_state \<Rightarrow> lcd_state" where
  "write_high r v s = s\<lparr>regs := (regs s)(r := (regs s r AND 0x0F) OR push_bit 4 v)\<rparr>"

text \<open>The labels of the \<open>switch (LCDDRx)\<close> statement.\<close>

datatype switch_branch = Case0 | Case1 | Case2 | Default

definition switch_LCDDRx :: "u8 \<Rightarrow> switch_branch" where
  "switch_LCDDRx LCDDRx =
     (if char_int LCDDRx = 0 then Case0
      else if char_int LCDDRx = 1 then Case1
      else if char_int LCDDRx = 2 then Case2
      else Default)"

text \<open>
  \<open>LCDWrite\<close>. \<open>Position\<close> is an \<open>unsigned char\<close> and is passed on to the \<open>char\<close>
  parameter of \<open>GetLCDDRx\<close> with its bits unchanged. The condition of the \<open>if\<close> is a
  short-circuit conjunction: the character is only looked at once the position has been
  accepted, and \<open>error\<close> holds the code of the call that failed. The four assignments of a
  branch run in source order (\<open>fold\<close> applies them from the head of the list).
\<close>

definition LCDWrite :: "u8 \<Rightarrow> u8 \<Rightarrow> lcd_state \<Rightarrow> lcd_state" where
  "LCDWrite LCDChar Position s =
     (case GetLCDDRx Position of
        Inl error \<Rightarrow> ReportError error s
      | Inr (LCDDRx, Nibble) \<Rightarrow>
          (case GetLCDDRValues LCDChar of
             Inl error \<Rightarrow> ReportError error s
           | Inr (LCDDRxValue, LCDDRx5Value, LCDDRx10Value, LCDDRx15Value) \<Rightarrow>
               (case switch_LCDDRx LCDDRx of
                  Case0 \<Rightarrow>
                    (if char_int Nibble = 0 then
                       fold (\<lambda>(r, v). write_low r v)
                         [(LCDDR0, LCDDRxValue), (LCDDR5, LCDDRx5Value),
                          (LCDDR10, LCDDRx10Value), (LCDDR15, LCDDRx15Value)] s
                     else
                       fold (\<lambda>(r, v). write_high r v)
                         [(LCDDR0, LCDDRxValue), (LCDDR5, LCDDRx5Value),
                          (LCDDR10, LCDDRx10Value), (LCDDR15, LCDDRx15Value)] s)
                | Case1 \<Rightarrow>
                    (if char_int Nibble = 0 then
                       fold (\<lambda>(r, v). write_low r v)
                         [(LCDDR1, LCDDRxValue), (LCDDR6, LCDDRx5Value),
                          (LCDDR11, LCDDRx10Value), (LCDDR16, LCDDRx15Value)] s
                     else
                       fold (\<lambda>(r, v). write_high r v)
                         [(LCDDR1, LCDDRxValue), (LCDDR6, LCDDRx5Value),
                          (LCDDR11, LCDDRx10Value), (LCDDR16, LCDDRx15Value)] s)
                | Case2 \<Rightarrow>
                    (if char_int Nibble = 0 then
                       fold (\<lambda>(r, v). write_low r v)
                         [(LCDDR2, LCDDRxValue), (LCDDR7, LCDDRx5Value),
                          (LCDDR12, LCDDRx10Value), (LCDDR17, LCDDRx15Value)] s
                     else
                       fold (\<lambda>(r, v). write_high r v)
                         [(LCDDR2, LCDDRxValue), (LCDDR7, LCDDRx5Value),
                          (LCDDR12, LCDDRx10Value), (LCDDR17, LCDDRx15Value)] s)
                | Default \<Rightarrow> s)))"

section \<open>D/A converter (dtoa.c)\<close>

subsection \<open>Hardware accesses\<close>

text \<open>
  \<open>WriteDtoASample\<close> talks to the hardware through three I/O registers and the serial
  port. Every access is recorded, in program order, as an event.
\<close>

datatype io_event = PORTB_write u8 | SPSR_read u8 | SPDR_write u8 | SCI_write string

text \<open>
  \<open>PORTB\<close> is the latch the program itself drives. \<open>SPSR\<close> is driven by the SPI hardware:
  its successive reads are an input of the model, \<open>spsr n\<close> being the value the \<open>n\<close>-th read of
  the status register returns, and \<open>nreads\<close> counts the reads made so far.
\<close>

record dtoa_state =
  PORTB :: u8
  nreads :: nat
  trace :: "io_event list"

definition write_PORTB :: "u8 \<Rightarrow> dtoa_state \<Rightarrow> dtoa_state" where
  "write_PORTB v s = s\<lparr>PORTB := v, trace := trace s @ [PORTB_write v]\<rparr>"

definition write_SPDR :: "u8 \<Rightarrow> dtoa_state \<Rightarrow> dtoa_state" where
  "write_SPDR v s = s\<lparr>trace := trace s @ [SPDR_write v]\<rparr>"

definition read_SPSR :: "(nat \<Rightarrow> u8) \<Rightarrow> dtoa_state \<Rightarrow> u8 \<times> dtoa_state" where
  "read_SPSR spsr s =
     (spsr (nreads s),
      s\<lparr>nreads := Suc (nreads s), trace := trace s @ [SPSR_read (spsr (nreads s))]\<rparr>)"

text \<open>
  Modelled from the spec: \<open>SCIWriteString_P\<close> (serial.h) is not part of the sources at hand.
  It is the logging collaborator the fault is reported to; the model records the string.
\<close>

definition SCIWriteString_P :: "string \<Rightarrow> dtoa_state \<Rightarrow> dtoa_state" where
  "SCIWriteString_P str s = s\<lparr>trace := trace s @ [SCI_write str]\<rparr>"

text \<open>
  Modelled from the spec: the macros \<open>CLEAR_BIT\<close> and \<open>SET_BIT\<close> (lib.h) are not part of the
  sources at hand. \<open>InitDtoA\<close> sets the select pin high so that the D/A is not selected, so
  asserting the select line clears the bit of the port and deasserting it sets the bit.
  The macros update the port in place; here they compute the byte to be written.
\<close>

definition CLEAR_BIT :: "u8 \<Rightarrow> nat \<Rightarrow> u8" where
  "CLEAR_BIT port b = port AND NOT (push_bit b 1)"

definition SET_BIT :: "u8 \<Rightarrow> nat \<Rightarrow> u8" where
  "SET_BIT port b = port OR push_bit b 1"

text \<open>\<open>SPIF\<close>, the transfer-complete flag of \<open>SPSR\<close>, is bit 7 in avr/io.h.\<close>

definition SPIF :: nat where
  "SPIF = 7"

text \<open>The string literal \<open>"Collision detected\n\r"\<close>.\<close>

definition collision_msg :: string where
  "collision_msg = ''Collision detected'' @ [CHR 0x0A, CHR 0x0D]"

subsection \<open>The sample write\<close>

text \<open>
  \<open>while(!(SPSR & (1 << SPIF)));\<close> reads the status register until the flag is set. The
  loop has no exit of its own: where the flag never shows, it does not return (\<open>None\<close>).
\<close>

partial_function (option) wait_SPIF :: "(nat \<Rightarrow> u8) \<Rightarrow> dtoa_state \<Rightarrow> dtoa_state option" where
  "wait_SPIF spsr s =
     (case read_SPSR spsr s of
        (status, s') \<Rightarrow>
          if status AND push_bit SPIF 1 = 0 then wait_SPIF spsr s' else Some s')"

declare wait_SPIF.simps [code]

text \<open>
  Steps 3 and 6: \<open>if (SPSR & (1 << 6)) SCIWriteString_P(...)\<close>, one read of the status
  register and a report when bit 6 (write collision) is set.
\<close>

definition check_collision :: "(nat \<Rightarrow> u8) \<Rightarrow> dtoa_state \<Rightarrow> dtoa_state" where
  "check_collision spsr s =
     (case read_SPSR spsr s of
        (status, s') \<Rightarrow>
          if status AND push_bit 6 1 \<noteq> 0 then SCIWriteString_P collision_msg s' else s')"

text \<open>
  \<open>WriteDtoASample\<close>. \<open>Value\<close> is an \<open>unsigned int\<close> (16 bits), so the shift drops what
  leaves bit 15; \<open>(unsigned char)\<close> keeps the low byte. \<open>D2A_CS_BIT\<close> (dtoa.h) is not part of
  the sources at hand and is a parameter.
\<close>

definition WriteDtoASample :: "nat \<Rightarrow> (nat \<Rightarrow> u8) \<Rightarrow> u16 \<Rightarrow> dtoa_state \<Rightarrow> dtoa_state option" where
  "WriteDtoASample D2A_CS_BIT spsr Value0 s0 =
     (let Value = push_bit 2 Value0;
          s1 = write_PORTB (CLEAR_BIT (PORTB s0) D2A_CS_BIT) s0;
          s2 = check_collision spsr s1;
          s3 = write_SPDR (ucast (drop_bit 8 Value)) s2
      in case wait_SPIF spsr s3 of
           None \<Rightarrow> None
         | Some s4 \<Rightarrow>
             (let s5 = check_collision spsr s4;
                  s6 = write_SPDR (ucast Value) s5
              in case wait_SPIF spsr s6 of
                   None \<Rightarrow> None
                 | Some s7 \<Rightarrow> Some (write_PORTB (SET_BIT (PORTB s7) D2A_CS_BIT) s7)))"


subsection \<open>Status streams for concrete runs\<close>

text \<open>A status register that answers the listed bytes, one per read, and \<open>d\<close> ever after.\<close>

definition spsr_of_list :: "u8 list \<Rightarrow> u8 \<Rightarrow> nat \<Rightarrow> u8" where
  "spsr_of_list xs d n = (if n < length xs then xs ! n else d)"

section \<open>Vocabulary of the specification\<close>

subsection \<open>LCD\<close>

text \<open>
  A character cell is a position in 2..7, read as the \<open>unsigned char\<close> that \<open>LCDWrite\<close>
  receives. A character is one of \<open>'0'\<close>..\<open>'9'\<close> (0x30..0x39) or the blank (0x20).
\<close>

definition valid_position :: "u8 \<Rightarrow> bool" where
  "valid_position p \<longleftrightarrow> 2 \<le> unat p \<and> unat p \<le> 7"

definition valid_char :: "u8 \<Rightarrow> bool" where
  "valid_char c \<longleftrightarrow> (0x30 \<le> unat c \<and> unat c \<le> 0x39) \<or> c = 0x20"

text \<open>
  The codebook as the specification lists it (section 4.1), digit 0 first, as plain
  numbers. It is compared with \<open>NumberSegments\<close>, the table of the code.
\<close>

definition spec_codebook :: "nat list" where
  "spec_codebook =
     [0x1551, 0x0110, 0x1E11, 0x1B11, 0x0B50, 0x1B41, 0x1F40, 0x0111, 0x1F51, 0x0B51]"

text \<open>The pattern of a character, and bits \<open>[4k+3 : 4k]\<close> of a pattern.\<close>

definition segment_pattern :: "u8 \<Rightarrow> u16" where
  "segment_pattern c = (if c = 0x20 then 0x0000 else NumberSegments ! (unat c - 0x30))"

definition nibble_of :: "nat \<Rightarrow> u16 \<Rightarrow> u8" where
  "nibble_of k w = of_nat ((unat w div 16 ^ k) mod 16)"

text \<open>
  The register group of a cell is \<open>(cell / 2) - 1\<close>; a group has one register per multiplex
  line, and \<open>com_line\<close> is the line a register belongs to, which is also the index of the
  pattern nibble it holds.
\<close>

definition cell_group :: "u8 \<Rightarrow> nat" where
  "cell_group p = unat p div 2 - 1"

definition group_regs :: "nat \<Rightarrow> lcdreg list" where
  "group_regs g =
     (if g = 0 then [LCDDR0, LCDDR5, LCDDR10, LCDDR15]
      else if g = 1 then [LCDDR1, LCDDR6, LCDDR11, LCDDR16]
      else [LCDDR2, LCDDR7, LCDDR12, LCDDR17])"

definition com_line :: "lcdreg \<Rightarrow> nat" where
  "com_line r =
     (case r of
        LCDDR0 \<Rightarrow> 0 | LCDDR1 \<Rightarrow> 0 | LCDDR2 \<Rightarrow> 0 | LCDDR3 \<Rightarrow> 0
      | LCDDR5 \<Rightarrow> 1 | LCDDR6 \<Rightarrow> 1 | LCDDR7 \<Rightarrow> 1 | LCDDR8 \<Rightarrow> 1
      | LCDDR10 \<Rightarrow> 2 | LCDDR11 \<Rightarrow> 2 | LCDDR12 \<Rightarrow> 2 | LCDDR13 \<Rightarrow> 2
      | LCDDR15 \<Rightarrow> 3 | LCDDR16 \<Rightarrow> 3 | LCDDR17 \<Rightarrow> 3)"

definition pattern_nibble :: "u8 \<Rightarrow> lcdreg \<Rightarrow> u8" where
  "pattern_nibble c r = nibble_of (com_line r) (segment_pattern c)"

text \<open>The nibble of a register byte that a cell owns: low for an even cell, high for an odd one.\<close>

definition owned_nibble :: "u8 \<Rightarrow> u8 \<Rightarrow> u8" where
  "owned_nibble p b = (if even (unat p) then b AND 0x0F else drop_bit 4 b)"

definition other_nibble :: "u8 \<Rightarrow> u8 \<Rightarrow> u8" where
  "other_nibble p b = (if even (unat p) then drop_bit 4 b else b AND 0x0F)"

subsection \<open>D/A\<close>

definition SPIF_set :: "u8 \<Rightarrow> bool" where
  "SPIF_set status \<longleftrightarrow> status AND push_bit SPIF 1 \<noteq> 0"

definition WCOL_set :: "u8 \<Rightarrow> bool" where
  "WCOL_set status \<longleftrightarrow> status AND push_bit 6 1 \<noteq> 0"

text \<open>\<open>first_SPIF spsr n k\<close>: of the status reads from the \<open>n\<close>-th on, the \<open>k\<close>-th is the first
  that shows the transfer-complete flag.\<close>

definition first_SPIF :: "(nat \<Rightarrow> u8) \<Rightarrow> nat \<Rightarrow> nat \<Rightarrow> bool" where
  "first_SPIF spsr n k \<longleftrightarrow> n \<le> k \<and> SPIF_set (spsr k) \<and> (\<forall>i\<in>{n..<k}. \<not> SPIF_set (spsr i))"

text \<open>The status reads number \<open>i\<close> to \<open>j - 1\<close>, and the report a status byte gives rise to.\<close>

definition status_reads :: "(nat \<Rightarrow> u8) \<Rightarrow> nat \<Rightarrow> nat \<Rightarrow> io_event list" where
  "status_reads spsr i j = map (\<lambda>n. SPSR_read (spsr n)) [i ..< j]"

definition collision_report :: "u8 \<Rightarrow> io_event list" where
  "collision_report status = (if WCOL_set status then [SCI_write collision_msg] else [])"

text \<open>
  The sequence of hardware accesses of one sample write that starts at status read \<open>n\<close> and
  whose two waits end at reads \<open>k1\<close> and \<open>k2\<close>: select; collision check; first byte; wait;
  collision check; second byte; wait; deselect.
\<close>

definition dtoa_trace ::
  "nat \<Rightarrow> (nat \<Rightarrow> u8) \<Rightarrow> u8 \<Rightarrow> u8 \<Rightarrow> u8 \<Rightarrow> nat \<Rightarrow> nat \<Rightarrow> nat \<Rightarrow> io_event list" where
  "dtoa_trace cs spsr port msb lsb n k1 k2 =
     [PORTB_write (CLEAR_BIT port cs)] @
     [SPSR_read (spsr n)] @ collision_report (spsr n) @
     [SPDR_write msb] @
     status_reads spsr (Suc n) (Suc k1) @
     [SPSR_read (spsr (Suc k1))] @ collision_report (spsr (Suc k1)) @
     [SPDR_write lsb] @
     status_reads spsr (Suc (Suc k1)) (Suc k2) @
     [PORTB_write (SET_BIT (CLEAR_BIT port cs) cs)]"

section \<open>The LCD driver: resolvers\<close>

subsection \<open>Range tests\<close>

lemma char_int_eq: "char_int c = k \<Longrightarrow> c = word_of_int k"
  by (auto simp: char_int_def)

lemma unat_u8_eq: "unat (p::u8) = n \<Longrightarrow> p = of_nat n"
  by auto

lemma valid_position_cases: "valid_position p \<longleftrightarrow> p \<in> {2, 3, 4, 5, 6, 7}"
proof
  assume "valid_position p"
  then have "unat p \<in> {2, 3, 4, 5, 6, 7}"
    unfolding valid_position_def by auto
  then show "p \<in> {2, 3, 4, 5, 6, 7}"
    by (auto dest!: unat_u8_eq)
next
  assume "p \<in> {2, 3, 4, 5, 6, 7}"
  then show "valid_position p"
    unfolding valid_position_def by auto
qed

lemma valid_char_cases:
  "valid_char c \<longleftrightarrow> c \<in> {0x30, 0x31, 0x32, 0x33, 0x34, 0x35, 0x36, 0x37, 0x38, 0x39, 0x20}"
proof
  assume "valid_char c"
  then have "unat c \<in> {0x30, 0x31, 0x32, 0x33, 0x34, 0x35, 0x36, 0x37, 0x38, 0x39} \<or> c = 0x20"
    unfolding valid_char_def by (cases "c = 0x20") (simp, simp, arith)
  then show "c \<in> {0x30, 0x31, 0x32, 0x33, 0x34, 0x35, 0x36, 0x37, 0x38, 0x39, 0x20}"
    by (auto dest!: unat_u8_eq)
next
  assume "c \<in> {0x30, 0x31, 0x32, 0x33, 0x34, 0x35, 0x36, 0x37, 0x38, 0x39, 0x20}"
  then show "valid_char c"
    unfolding valid_char_def by auto
qed

text \<open>
  The tests of the code read the byte as a signed \<open>char\<close>; the ranges they accept are the
  same when the byte is read as unsigned.
\<close>

lemma position_test: "(char_int p \<ge> 2 \<and> char_int p \<le> 7) = valid_position p"
proof
  assume "2 \<le> char_int p \<and> char_int p \<le> 7"
  then have "char_int p \<in> {2, 3, 4, 5, 6, 7}" by auto
  then have "p \<in> {2, 3, 4, 5, 6, 7}" by (auto dest!: char_int_eq)
  then show "valid_position p" by (simp add: valid_position_cases)
next
  assume "valid_position p"
  then have "p \<in> {2, 3, 4, 5, 6, 7}" by (simp add: valid_position_cases)
  then show "2 \<le> char_int p \<and> char_int p \<le> 7" by (auto simp: char_int_def)
qed

lemma digit_test:
  "(char_int c \<ge> char_int 0x30 \<and> char_int c \<le> char_int 0x39) =
   (0x30 \<le> unat c \<and> unat c \<le> 0x39)"
proof
  assume "char_int 0x30 \<le> char_int c \<and> char_int c \<le> char_int 0x39"
  then have "char_int c \<in> {0x30, 0x31, 0x32, 0x33, 0x34, 0x35, 0x36, 0x37, 0x38, 0x39}"
    by (simp add: char_int_def[of "numeral n" for n], arith)
  then have "c \<in> {0x30, 0x31, 0x32, 0x33, 0x34, 0x35, 0x36, 0x37, 0x38, 0x39}"
    by (auto dest!: char_int_eq)
  then show "0x30 \<le> unat c \<and> unat c \<le> 0x39" by auto
next
  assume "0x30 \<le> unat c \<and> unat c \<le> 0x39"
  then have "unat c \<in> {0x30, 0x31, 0x32, 0x33, 0x34, 0x35, 0x36, 0x37, 0x38, 0x39}"
    by (simp, arith)
  then have "c \<in> {0x30, 0x31, 0x32, 0x33, 0x34, 0x35, 0x36, 0x37, 0x38, 0x39}"
    by (auto dest!: unat_u8_eq)
  then show "char_int 0x30 \<le> char_int c \<and> char_int c \<le> char_int 0x39"
    by (auto simp: char_int_def)
qed

subsection \<open>Position resolver\<close>

lemma GetLCDDRx_at:
  "GetLCDDRx 2 = Inr (0, 0)" "GetLCDDRx 3 = Inr (0, 1)" "GetLCDDRx 4 = Inr (1, 0)"
  "GetLCDDRx 5 = Inr (1, 1)" "GetLCDDRx 6 = Inr (2, 0)" "GetLCDDRx 7 = Inr (2, 1)"
  by (simp_all add: GetLCDDRx_def char_int_def c_div_def c_mod_def)

lemma GetLCDDRx_invalid: "\<not> valid_position p \<Longrightarrow> GetLCDDRx p = Inl LCD_INVALID_POS"
  by (simp add: GetLCDDRx_def position_test)

lemma GetLCDDRx_Inr_valid: "GetLCDDRx p = Inr x \<Longrightarrow> valid_position p"
  by (cases "valid_position p") (simp_all add: GetLCDDRx_invalid)

text \<open>
  Claim C4. For every position in 2..7 the position resolver succeeds with the group
  index \<open>(p / 2) - 1\<close> and the nibble selector \<open>p mod 2\<close>; for every other position it fails
  with \<open>LCD_INVALID_POS\<close>. The resolver is a function of the position alone: it reads and
  writes no register.
\<close>

theorem C4_position_resolver:
  "GetLCDDRx p =
     (if valid_position p
      then Inr (of_nat (unat p div 2 - 1), of_nat (unat p mod 2))
      else Inl LCD_INVALID_POS)"
proof (cases "valid_position p")
  case True
  then have "p \<in> {2, 3, 4, 5, 6, 7}"
    by (simp add: valid_position_cases)
  then show ?thesis
    by (auto simp: GetLCDDRx_at valid_position_def)
next
  case False
  then show ?thesis
    by (simp add: GetLCDDRx_invalid)
qed

theorem C4_position_resolver_witness:
  "GetLCDDRx 5 = Inr (1, 1) \<and> GetLCDDRx 8 = Inl LCD_INVALID_POS \<and>
   GetLCDDRx 1 = Inl LCD_INVALID_POS \<and> GetLCDDRx 0xFF = Inl LCD_INVALID_POS"
  using C4_position_resolver [of 5] C4_position_resolver [of 8] C4_position_resolver [of 1]
    C4_position_resolver [of "0xFF"]
  by (simp add: valid_position_def)

lemma switch_at:
  "switch_LCDDRx 0 = Case0" "switch_LCDDRx 1 = Case1" "switch_LCDDRx 2 = Case2"
  by (simp_all add: switch_LCDDRx_def char_int_def)

text \<open>
  Claim C8. Whenever the position resolver succeeds, the group index it returns is 0, 1 or
  2, so the \<open>switch\<close> of \<open>LCDWrite\<close> takes one of its three \<open>case\<close> labels and never the
  \<open>default\<close> branch.
\<close>

theorem C8_default_branch_unreachable:
  assumes "GetLCDDRx p = Inr (g, n)"
  shows "g \<in> {0, 1, 2} \<and> switch_LCDDRx g \<noteq> Default"
proof -
  from assms have "valid_position p"
    by (rule GetLCDDRx_Inr_valid)
  then have "p \<in> {2, 3, 4, 5, 6, 7}"
    by (simp add: valid_position_cases)
  with assms show ?thesis
    by (auto simp: GetLCDDRx_at switch_at)
qed

theorem C8_default_branch_unreachable_witness:
  "GetLCDDRx 6 = Inr (2, 0) \<and> (2::u8) \<in> {0, 1, 2} \<and> switch_LCDDRx 2 \<noteq> Default"
proof -
  have h: "GetLCDDRx 6 = Inr (2, 0)"
    by (simp add: GetLCDDRx_at)
  from C8_default_branch_unreachable [OF h] h show ?thesis
    by simp
qed

subsection \<open>Segment table\<close>

lemma GetLCDDRValues_valid:
  "valid_char c \<Longrightarrow> GetLCDDRValues c =
     Inr (nibble_of 0 (segment_pattern c), nibble_of 1 (segment_pattern c),
          nibble_of 2 (segment_pattern c), nibble_of 3 (segment_pattern c))"
  unfolding valid_char_cases
  by (auto simp: GetLCDDRValues_def char_int_def NumberSegments_def nibble_of_def
      segment_pattern_def)

lemma GetLCDDRValues_invalid:
  "\<not> valid_char c \<Longrightarrow> GetLCDDRValues c = Inl LCD_INVALID_CHAR"
  by (simp add: GetLCDDRValues_def digit_test valid_char_def Let_def)

lemma lt10: "d < 10 \<longleftrightarrow> d \<in> {0, 1, 2, 3, 4, 5, 6, 7, 8, 9::nat}"
  by auto

text \<open>
  Claim C2. For every digit \<open>d\<close> in 0..9 the segment table, asked for the character
  \<open>'0' + d\<close>, returns the entry \<open>d\<close> of the codebook of the specification, split into its
  bits \<open>[3:0]\<close>, \<open>[7:4]\<close>, \<open>[11:8]\<close> and \<open>[15:12]\<close>; for the blank it returns four zero nibbles.
\<close>

theorem C2_segment_table:
  assumes "d < 10"
  shows "GetLCDDRValues (of_nat (0x30 + d)) =
           Inr (of_nat (spec_codebook ! d mod 16),
                of_nat (spec_codebook ! d div 16 mod 16),
                of_nat (spec_codebook ! d div 256 mod 16),
                of_nat (spec_codebook ! d div 4096 mod 16)) \<and>
         unat (NumberSegments ! d) = spec_codebook ! d \<and>
         GetLCDDRValues 0x20 = Inr (0, 0, 0, 0)"
  using assms unfolding lt10
  by (auto simp: GetLCDDRValues_def char_int_def NumberSegments_def spec_codebook_def)

theorem C2_segment_table_witness:
  "(3::nat) < 10 \<and> GetLCDDRValues 0x33 = Inr (0x1, 0x1, 0xB, 0x1) \<and>
   unat (NumberSegments ! 3) = 0x1B11 \<and> GetLCDDRValues 0x20 = Inr (0, 0, 0, 0)"
  using C2_segment_table [of 3]
  by (simp add: spec_codebook_def)

section \<open>The LCD driver: register update\<close>

subsection \<open>Nibble arithmetic\<close>

lemma lo_mask: "(0x0F::u8) = mask 4"
  by (simp add: mask_eq_exp_minus_1)

lemma hi_mask: "(0xF0::u8) = push_bit 4 (mask 4)"
  by (simp add: mask_eq_exp_minus_1 push_bit_eq_mult)

lemma nibble_of_small: "nibble_of k w AND 0xF0 = 0"
proof -
  have "(unat w div 16 ^ k) mod 16 = take_bit 4 (unat w div 16 ^ k)"
    by (simp add: take_bit_eq_mod)
  then have "nibble_of k w = take_bit 4 (of_nat (unat w div 16 ^ k))"
    unfolding nibble_of_def by (simp only: of_nat_take_bit)
  then show ?thesis
    unfolding hi_mask by (simp add: bit_eq_iff bit_simps)
qed

lemma small_bits:
  assumes "v AND 0xF0 = (0::u8)" and "bit v n"
  shows "n < 4"
proof (rule ccontr)
  assume "\<not> n < 4"
  moreover from assms(2) have "n < 8"
    by (auto dest: bit_imp_le_length)
  ultimately have "bit (v AND 0xF0) n"
    using assms(2) unfolding hi_mask by (simp add: bit_simps) arith
  with assms(1) show False
    by simp
qed

lemma low_keeps_high:
  assumes "v AND 0xF0 = 0"
  shows "drop_bit 4 ((x AND 0xF0) OR v) = drop_bit 4 (x::u8)"
proof (rule bit_eqI)
  fix n
  have "\<not> bit v (4 + n)"
    using small_bits[OF assms, of "4 + n"] by auto
  then show "bit (drop_bit 4 ((x AND 0xF0) OR v)) n = bit (drop_bit 4 x) n"
    unfolding hi_mask by (auto simp: bit_simps dest: bit_imp_le_length)
qed

lemma low_reads_back:
  assumes "v AND 0xF0 = 0"
  shows "((x AND 0xF0) OR v) AND 0x0F = (v::u8)"
proof (rule bit_eqI)
  fix n
  show "bit (((x AND 0xF0) OR v) AND 0x0F) n = bit v n"
    using small_bits[OF assms, of n] unfolding hi_mask lo_mask
    by (auto simp: bit_simps)
qed

lemma high_keeps_low: "((x AND 0x0F) OR push_bit 4 v) AND 0x0F = x AND (0x0F::u8)"
  unfolding lo_mask by (rule bit_eqI) (auto simp: bit_simps)

lemma high_reads_back:
  assumes "v AND 0xF0 = 0"
  shows "drop_bit 4 ((x AND 0x0F) OR push_bit 4 v) = (v::u8)"
proof (rule bit_eqI)
  fix n
  show "bit (drop_bit 4 ((x AND 0x0F) OR push_bit 4 v)) n = bit v n"
    using small_bits[OF assms, of n] unfolding lo_mask
    by (auto simp: bit_simps dest: bit_imp_le_length)
qed

lemma low_twice:
  assumes "v AND 0xF0 = 0"
  shows "((((x AND 0xF0) OR v) AND 0xF0) OR v') = ((x AND 0xF0) OR (v'::u8))"
proof (rule bit_eqI)
  fix n
  show "bit ((((x AND 0xF0) OR v) AND 0xF0) OR v') n = bit ((x AND 0xF0) OR v') n"
    using small_bits[OF assms, of n] unfolding hi_mask
    by (auto simp: bit_simps)
qed

lemma high_twice:
  "((((x AND 0x0F) OR push_bit 4 v) AND 0x0F) OR push_bit 4 v') =
   ((x AND 0x0F) OR push_bit 4 (v'::u8))"
  unfolding lo_mask by (rule bit_eqI) (auto simp: bit_simps)

subsection \<open>What a call does\<close>

lemma LCDWrite_invalid_pos:
  "\<not> valid_position p \<Longrightarrow> LCDWrite c p s = ReportError LCD_INVALID_POS s"
  by (simp add: LCDWrite_def GetLCDDRx_invalid)

lemma LCDWrite_invalid_char:
  assumes "valid_position p" and "\<not> valid_char c"
  shows "LCDWrite c p s = ReportError LCD_INVALID_CHAR s"
  using assms(1) unfolding valid_position_cases
  by (auto simp: LCDWrite_def GetLCDDRx_at GetLCDDRValues_invalid[OF assms(2)])

lemmas LCDWrite_eval =
  LCDWrite_def GetLCDDRx_at switch_at char_int_def write_low_def write_high_def

lemma LCDWrite_reported:
  assumes "valid_char c" and "valid_position p"
  shows "reported (LCDWrite c p s) = reported s"
  using assms(2) unfolding valid_position_cases
  by (auto simp: LCDWrite_eval GetLCDDRValues_valid[OF assms(1)])

lemma LCDWrite_regs:
  assumes "valid_char c" and "valid_position p"
  shows "regs (LCDWrite c p s) r =
           (if r \<in> set (group_regs (cell_group p)) then
              (if even (unat p)
               then (regs s r AND 0xF0) OR pattern_nibble c r
               else (regs s r AND 0x0F) OR push_bit 4 (pattern_nibble c r))
            else regs s r)"
  using assms(2) unfolding valid_position_cases
  by (cases r)
     (auto simp: LCDWrite_eval GetLCDDRValues_valid[OF assms(1)] group_regs_def cell_group_def
        com_line_def pattern_nibble_def)

lemma pattern_nibble_small: "pattern_nibble c r AND 0xF0 = 0"
  by (simp add: pattern_nibble_def nibble_of_small)

lemma group_regs_lines:
  "valid_position p \<Longrightarrow> map com_line (group_regs (cell_group p)) = [0, 1, 2, 3]"
  unfolding valid_position_cases
  by (auto simp: group_regs_def cell_group_def com_line_def)

lemma lcd_state_eqI:
  "regs a = regs b \<Longrightarrow> reported a = reported b \<Longrightarrow> a = (b::lcd_state)"
  by simp

text \<open>
  Claim C1. For a valid character and a valid position, every register of the group of
  the position gets the nibble selected by the parity of the position replaced by the
  pattern nibble of its multiplex line, by the formulas of the specification; the other
  nibble of these registers is kept, the owned nibble reads back as the pattern nibble, the
  four registers of the group hold the pattern nibbles 0 to 3 in order, and every register
  outside the group is unchanged.
\<close>

theorem C1_write_replaces_owned_nibble:
  assumes "valid_char c" and "valid_position p"
  shows "(\<forall>r. regs (LCDWrite c p s) r =
            (if r \<in> set (group_regs (cell_group p)) then
               (if even (unat p)
                then (regs s r AND 0xF0) OR pattern_nibble c r
                else (regs s r AND 0x0F) OR push_bit 4 (pattern_nibble c r))
             else regs s r)) \<and>
         (\<forall>r\<in>set (group_regs (cell_group p)).
            other_nibble p (regs (LCDWrite c p s) r) = other_nibble p (regs s r) \<and>
            owned_nibble p (regs (LCDWrite c p s) r) = pattern_nibble c r) \<and>
         map com_line (group_regs (cell_group p)) = [0, 1, 2, 3]"
proof (intro conjI allI ballI)
  fix r
  show "regs (LCDWrite c p s) r =
          (if r \<in> set (group_regs (cell_group p)) then
             (if even (unat p)
              then (regs s r AND 0xF0) OR pattern_nibble c r
              else (regs s r AND 0x0F) OR push_bit 4 (pattern_nibble c r))
           else regs s r)"
    using assms by (rule LCDWrite_regs)
next
  fix r
  assume "r \<in> set (group_regs (cell_group p))"
  then have new: "regs (LCDWrite c p s) r =
      (if even (unat p)
       then (regs s r AND 0xF0) OR pattern_nibble c r
       else (regs s r AND 0x0F) OR push_bit 4 (pattern_nibble c r))"
    by (simp add: LCDWrite_regs[OF assms])
  show "other_nibble p (regs (LCDWrite c p s) r) = other_nibble p (regs s r)"
    unfolding new other_nibble_def
    by (cases "even (unat p)")
       (simp_all only: if_True if_False low_keeps_high[OF pattern_nibble_small] high_keeps_low)
  show "owned_nibble p (regs (LCDWrite c p s) r) = pattern_nibble c r"
    unfolding new owned_nibble_def
    by (cases "even (unat p)")
       (simp_all only: if_True if_False low_reads_back[OF pattern_nibble_small]
          high_reads_back[OF pattern_nibble_small])
next
  show "map com_line (group_regs (cell_group p)) = [0, 1, 2, 3]"
    using assms(2) by (rule group_regs_lines)
qed

theorem C1_write_replaces_owned_nibble_witness:
  "valid_char 0x33 \<and> valid_position 4 \<and>
   regs (LCDWrite 0x33 4 \<lparr>regs = (\<lambda>r. 0xA5), reported = []\<rparr>) LCDDR1 = 0xA1 \<and>
   regs (LCDWrite 0x33 4 \<lparr>regs = (\<lambda>r. 0xA5), reported = []\<rparr>) LCDDR6 = 0xA1 \<and>
   regs (LCDWrite 0x33 4 \<lparr>regs = (\<lambda>r. 0xA5), reported = []\<rparr>) LCDDR11 = 0xAB \<and>
   regs (LCDWrite 0x33 4 \<lparr>regs = (\<lambda>r. 0xA5), reported = []\<rparr>) LCDDR16 = 0xA1 \<and>
   regs (LCDWrite 0x33 4 \<lparr>regs = (\<lambda>r. 0xA5), reported = []\<rparr>) LCDDR0 = 0xA5"
proof -
  have c: "valid_char 0x33" and p: "valid_position 4"
    by (simp_all add: valid_char_def valid_position_def)
  have g: "group_regs (cell_group 4) = [LCDDR1, LCDDR6, LCDDR11, LCDDR16]"
    by (simp add: group_regs_def cell_group_def)
  have n: "pattern_nibble 0x33 LCDDR1 = 0x1" "pattern_nibble 0x33 LCDDR6 = 0x1"
    "pattern_nibble 0x33 LCDDR11 = 0xB" "pattern_nibble 0x33 LCDDR16 = 0x1"
    by (simp_all add: pattern_nibble_def com_line_def nibble_of_def segment_pattern_def
        NumberSegments_def)
  from C1_write_replaces_owned_nibble [OF c p, of "\<lparr>regs = (\<lambda>r. 0xA5), reported = []\<rparr>"]
  show ?thesis
    by (simp add: c p g n)
qed

text \<open>
  Claim C3. When the position is outside 2..7 or the character is not a digit or the blank,
  the call hands one error to \<open>ReportError\<close> (\<open>LCD_INVALID_POS\<close> for a bad position,
  \<open>LCD_INVALID_CHAR\<close> for a bad character at a good position) and writes no register: the
  register bank after the call is the register bank before it.
\<close>

theorem C3_invalid_argument_writes_nothing:
  assumes "\<not> valid_position p \<or> \<not> valid_char c"
  shows "regs (LCDWrite c p s) = regs s \<and>
         reported (LCDWrite c p s) =
           reported s @ [if valid_position p then LCD_INVALID_CHAR else LCD_INVALID_POS]"
proof (cases "valid_position p")
  case True
  with assms have "\<not> valid_char c" by simp
  with True show ?thesis
    by (simp add: LCDWrite_invalid_char ReportError_def)
next
  case False
  then show ?thesis
    by (simp add: LCDWrite_invalid_pos ReportError_def)
qed

theorem C3_invalid_argument_writes_nothing_witness:
  "valid_position 4 \<and> \<not> valid_char 0x41 \<and>
   regs (LCDWrite 0x41 4 \<lparr>regs = (\<lambda>r. 0xA5), reported = []\<rparr>) = (\<lambda>r. 0xA5) \<and>
   reported (LCDWrite 0x41 4 \<lparr>regs = (\<lambda>r. 0xA5), reported = []\<rparr>) = [LCD_INVALID_CHAR]"
proof -
  have h: "\<not> valid_position 4 \<or> \<not> valid_char 0x41"
    by (simp add: valid_char_def)
  from C3_invalid_argument_writes_nothing [OF h, of "\<lparr>regs = (\<lambda>r. 0xA5), reported = []\<rparr>"]
  show ?thesis
    by (simp add: valid_position_def valid_char_def)
qed

text \<open>
  Claim C10. When both the position and the character are invalid, the position is
  checked first and the character is never looked at: the one error reported is
  \<open>LCD_INVALID_POS\<close>, and the outcome is the same for every character.
\<close>

theorem C10_position_checked_first:
  assumes "\<not> valid_position p" and "\<not> valid_char c"
  shows "reported (LCDWrite c p s) = reported s @ [LCD_INVALID_POS] \<and>
         LCD_INVALID_CHAR \<notin> set (drop (length (reported s)) (reported (LCDWrite c p s))) \<and>
         (\<forall>c'. LCDWrite c' p s = LCDWrite c p s)"
  using assms(1) by (simp add: LCDWrite_invalid_pos ReportError_def)

theorem C10_position_checked_first_witness:
  "\<not> valid_position 9 \<and> \<not> valid_char 0x41 \<and>
   reported (LCDWrite 0x41 9 \<lparr>regs = (\<lambda>r. 0), reported = []\<rparr>) = [LCD_INVALID_POS]"
proof -
  have p: "\<not> valid_position 9" and c: "\<not> valid_char 0x41"
    by (simp_all add: valid_position_def valid_char_def)
  from C10_position_checked_first [OF p c, of "\<lparr>regs = (\<lambda>r. 0), reported = []\<rparr>"] p c
  show ?thesis
    by simp
qed

text \<open>
  Claim C6. For a valid position and two valid characters, writing the first character
  and then the second leaves the state that writing the second alone leaves: the owned
  nibble of each register of the group reads back as the pattern nibble of the second
  character, with nothing left of the first.
\<close>

theorem C6_second_write_overwrites:
  assumes "valid_position p" and "valid_char c1" and "valid_char c2"
  shows "LCDWrite c2 p (LCDWrite c1 p s) = LCDWrite c2 p s \<and>
         (\<forall>r\<in>set (group_regs (cell_group p)).
            owned_nibble p (regs (LCDWrite c2 p (LCDWrite c1 p s)) r) = pattern_nibble c2 r)"
proof -
  have "regs (LCDWrite c2 p (LCDWrite c1 p s)) r = regs (LCDWrite c2 p s) r" for r
    by (simp add: LCDWrite_regs assms low_twice high_twice pattern_nibble_small)
  then have "regs (LCDWrite c2 p (LCDWrite c1 p s)) = regs (LCDWrite c2 p s)"
    by (rule ext)
  moreover have "reported (LCDWrite c2 p (LCDWrite c1 p s)) = reported (LCDWrite c2 p s)"
    by (simp add: LCDWrite_reported assms)
  ultimately have eq: "LCDWrite c2 p (LCDWrite c1 p s) = LCDWrite c2 p s"
    by (rule lcd_state_eqI)
  have "owned_nibble p (regs (LCDWrite c2 p s) r) = pattern_nibble c2 r"
    if r: "r \<in> set (group_regs (cell_group p))" for r
  proof -
    have new: "regs (LCDWrite c2 p s) r =
        (if even (unat p)
         then (regs s r AND 0xF0) OR pattern_nibble c2 r
         else (regs s r AND 0x0F) OR push_bit 4 (pattern_nibble c2 r))"
      using r by (simp add: LCDWrite_regs assms)
    show ?thesis
      unfolding new owned_nibble_def
      by (cases "even (unat p)")
         (simp_all only: if_True if_False low_reads_back[OF pattern_nibble_small]
            high_reads_back[OF pattern_nibble_small])
  qed
  with eq show ?thesis
    by simp
qed

theorem C6_second_write_overwrites_witness:
  "valid_position 4 \<and> valid_char 0x38 \<and> valid_char 0x20 \<and>
   map (regs (LCDWrite 0x20 4 (LCDWrite 0x38 4 \<lparr>regs = (\<lambda>r. 0xFF), reported = []\<rparr>)))
     [LCDDR1, LCDDR6, LCDDR11, LCDDR16] = [0xF0, 0xF0, 0xF0, 0xF0] \<and>
   map (regs (LCDWrite 0x38 4 \<lparr>regs = (\<lambda>r. 0xFF), reported = []\<rparr>))
     [LCDDR1, LCDDR6, LCDDR11, LCDDR16] = [0xF1, 0xF5, 0xFF, 0xF1]"
proof -
  have p: "valid_position 4" and c1: "valid_char 0x38" and c2: "valid_char 0x20"
    by (simp_all add: valid_char_def valid_position_def)
  have g: "group_regs (cell_group 4) = [LCDDR1, LCDDR6, LCDDR11, LCDDR16]"
    by (simp add: group_regs_def cell_group_def)
  have n: "pattern_nibble 0x38 LCDDR1 = 0x1" "pattern_nibble 0x38 LCDDR6 = 0x5"
    "pattern_nibble 0x38 LCDDR11 = 0xF" "pattern_nibble 0x38 LCDDR16 = 0x1"
    "pattern_nibble 0x20 r = 0" for r
    by (simp_all add: pattern_nibble_def com_line_def nibble_of_def segment_pattern_def
        NumberSegments_def)
  from C6_second_write_overwrites [OF p c1 c2, of "\<lparr>regs = (\<lambda>r. 0xFF), reported = []\<rparr>"]
  show ?thesis
    by (simp add: p c1 c2 g n LCDWrite_regs)
qed

text \<open>
  Claim C7. Writing is idempotent on the register bank: for every character and every
  position, valid or not, and from every state, a second call with the same arguments
  leaves the registers as the first call left them.
\<close>

theorem C7_write_idempotent:
  "regs (LCDWrite c p (LCDWrite c p s)) = regs (LCDWrite c p s)"
proof (cases "valid_position p")
  case False
  then show ?thesis
    by (simp add: LCDWrite_invalid_pos ReportError_def)
next
  case p: True
  show ?thesis
  proof (cases "valid_char c")
    case False
    with p show ?thesis
      by (simp add: LCDWrite_invalid_char ReportError_def)
  next
    case c: True
    have "regs (LCDWrite c p (LCDWrite c p s)) r = regs (LCDWrite c p s) r" for r
      by (simp add: LCDWrite_regs p c low_twice high_twice pattern_nibble_small)
    then show ?thesis
      by (rule ext)
  qed
qed

theorem C7_write_idempotent_witness:
  "regs (LCDWrite 0x35 3 (LCDWrite 0x35 3 \<lparr>regs = (\<lambda>r. 0x5A), reported = []\<rparr>)) =
   regs (LCDWrite 0x35 3 \<lparr>regs = (\<lambda>r. 0x5A), reported = []\<rparr>)"
  using C7_write_idempotent [of "0x35" 3 "\<lparr>regs = (\<lambda>r. 0x5A), reported = []\<rparr>"]
  by simp

section \<open>The D/A sample write\<close>

subsection \<open>The wait loop\<close>

lemma wait_SPIF_step:
  "wait_SPIF spsr s =
     (if SPIF_set (spsr (nreads s))
      then Some (s\<lparr>nreads := Suc (nreads s), trace := trace s @ [SPSR_read (spsr (nreads s))]\<rparr>)
      else wait_SPIF spsr
             (s\<lparr>nreads := Suc (nreads s), trace := trace s @ [SPSR_read (spsr (nreads s))]\<rparr>))"
  by (subst wait_SPIF.simps) (simp add: read_SPSR_def SPIF_set_def)

text \<open>Where the flag shows first at read \<open>k\<close>, the loop returns after that read.\<close>

lemma wait_SPIF_done:
  assumes "nreads s \<le> k"
    and "\<forall>i. nreads s \<le> i \<and> i < k \<longrightarrow> \<not> SPIF_set (spsr i)"
    and "SPIF_set (spsr k)"
  shows "wait_SPIF spsr s =
           Some (s\<lparr>nreads := Suc k, trace := trace s @ status_reads spsr (nreads s) (Suc k)\<rparr>)"
  using assms
proof (induction "k - nreads s" arbitrary: s)
  case 0
  then have "nreads s = k" by simp
  with 0 show ?case
    by (subst wait_SPIF_step) (simp add: status_reads_def)
next
  case (Suc d)
  let ?s' = "s\<lparr>nreads := Suc (nreads s), trace := trace s @ [SPSR_read (spsr (nreads s))]\<rparr>"
  from Suc have lt: "nreads s < k" by simp
  with Suc.prems have clear: "\<not> SPIF_set (spsr (nreads s))" by simp
  have "wait_SPIF spsr ?s' =
          Some (?s'\<lparr>nreads := Suc k, trace := trace ?s' @ status_reads spsr (nreads ?s') (Suc k)\<rparr>)"
    using Suc.hyps(2) Suc.prems lt by (intro Suc.hyps(1)) auto
  moreover have "status_reads spsr (nreads s) (Suc k) =
                   SPSR_read (spsr (nreads s)) # status_reads spsr (Suc (nreads s)) (Suc k)"
    using lt by (simp add: status_reads_def upt_conv_Cons del: upt_Suc)
  ultimately show ?case
    using clear by (subst wait_SPIF_step) simp
qed

text \<open>Where the loop returns, the flag has shown.\<close>

lemma wait_SPIF_Some_flag:
  assumes "wait_SPIF spsr s = Some s'"
  shows "\<exists>k\<ge>nreads s. SPIF_set (spsr k)"
proof (rule wait_SPIF.raw_induct
    [where P = "\<lambda>spsr s y. \<exists>k\<ge>nreads s. SPIF_set (spsr k)" and spsr = spsr and s = s and y = s'])
  show "wait_SPIF spsr s = Some s'" by fact
next
  fix wait :: "(nat \<Rightarrow> u8) \<Rightarrow> dtoa_state \<Rightarrow> dtoa_state option" and spsr s y
  assume IH: "\<And>f t z. wait f t = Some z \<Longrightarrow> \<exists>k\<ge>nreads t. SPIF_set (f k)"
    and eq: "(case read_SPSR spsr s of
                (status, s') \<Rightarrow>
                  if status AND push_bit SPIF 1 = 0 then wait spsr s' else Some s') = Some y"
  show "\<exists>k\<ge>nreads s. SPIF_set (spsr k)"
  proof (cases "SPIF_set (spsr (nreads s))")
    case True
    then show ?thesis by auto
  next
    case False
    with eq have "wait spsr (s\<lparr>nreads := Suc (nreads s),
                    trace := trace s @ [SPSR_read (spsr (nreads s))]\<rparr>) = Some y"
      by (simp add: read_SPSR_def SPIF_set_def)
    from IH[OF this] obtain k where "Suc (nreads s) \<le> k" "SPIF_set (spsr k)" by auto
    then show ?thesis by (intro exI[of _ k]) simp
  qed
qed

lemma wait_SPIF_first:
  assumes "first_SPIF spsr (nreads s) k"
  shows "wait_SPIF spsr s =
           Some (s\<lparr>nreads := Suc k, trace := trace s @ status_reads spsr (nreads s) (Suc k)\<rparr>)"
  using assms unfolding first_SPIF_def by (intro wait_SPIF_done) auto

lemma wait_SPIF_Some_first:
  assumes "wait_SPIF spsr s = Some s'"
  shows "\<exists>k. first_SPIF spsr (nreads s) k"
proof -
  from wait_SPIF_Some_flag[OF assms] obtain k where k: "nreads s \<le> k \<and> SPIF_set (spsr k)"
    by auto
  define m where "m = (LEAST k. nreads s \<le> k \<and> SPIF_set (spsr k))"
  have m: "nreads s \<le> m \<and> SPIF_set (spsr m)"
    unfolding m_def using k by (rule LeastI)
  have "\<forall>i. nreads s \<le> i \<and> i < m \<longrightarrow> \<not> SPIF_set (spsr i)"
    unfolding m_def using not_less_Least by blast
  with m have "first_SPIF spsr (nreads s) m"
    by (auto simp: first_SPIF_def)
  then show ?thesis ..
qed

subsection \<open>One sample write\<close>

lemma check_collision_eq:
  "check_collision spsr s =
     s\<lparr>nreads := Suc (nreads s),
       trace := trace s @ [SPSR_read (spsr (nreads s))] @ collision_report (spsr (nreads s))\<rparr>"
  by (simp add: check_collision_def read_SPSR_def SCIWriteString_P_def collision_report_def
      WCOL_set_def)

lemma WriteDtoASample_run:
  assumes k1: "first_SPIF spsr (Suc (nreads s)) k1"
    and k2: "first_SPIF spsr (Suc (Suc k1)) k2"
  shows "WriteDtoASample cs spsr V s =
           Some \<lparr>PORTB = SET_BIT (CLEAR_BIT (PORTB s) cs) cs, nreads = Suc k2,
                 trace = trace s @
                   dtoa_trace cs spsr (PORTB s) (ucast (drop_bit 8 (push_bit 2 V)))
                     (ucast (push_bit 2 V)) (nreads s) k1 k2\<rparr>"
proof -
  define s3 where "s3 = write_SPDR (ucast (drop_bit 8 (push_bit 2 V)))
                          (check_collision spsr (write_PORTB (CLEAR_BIT (PORTB s) cs) s))"
  have n3: "nreads s3 = Suc (nreads s)"
    by (simp add: s3_def write_SPDR_def check_collision_eq write_PORTB_def)
  define s4 where
    "s4 = s3\<lparr>nreads := Suc k1, trace := trace s3 @ status_reads spsr (nreads s3) (Suc k1)\<rparr>"
  have w1: "wait_SPIF spsr s3 = Some s4"
    unfolding s4_def using k1 by (intro wait_SPIF_first) (simp add: n3)
  define s6 where "s6 = write_SPDR (ucast (push_bit 2 V)) (check_collision spsr s4)"
  have n6: "nreads s6 = Suc (Suc k1)"
    by (simp add: s6_def s4_def write_SPDR_def check_collision_eq)
  define s7 where
    "s7 = s6\<lparr>nreads := Suc k2, trace := trace s6 @ status_reads spsr (nreads s6) (Suc k2)\<rparr>"
  have w2: "wait_SPIF spsr s6 = Some s7"
    unfolding s7_def using k2 by (intro wait_SPIF_first) (simp add: n6)
  have "WriteDtoASample cs spsr V s = Some (write_PORTB (SET_BIT (PORTB s7) cs) s7)"
    using w1 w2 by (simp add: WriteDtoASample_def Let_def s3_def[symmetric] s6_def[symmetric])
  also have "write_PORTB (SET_BIT (PORTB s7) cs) s7 =
               \<lparr>PORTB = SET_BIT (CLEAR_BIT (PORTB s) cs) cs, nreads = Suc k2,
                 trace = trace s @
                   dtoa_trace cs spsr (PORTB s) (ucast (drop_bit 8 (push_bit 2 V)))
                     (ucast (push_bit 2 V)) (nreads s) k1 k2\<rparr>"
    by (simp add: s7_def s6_def s4_def s3_def n3 write_SPDR_def check_collision_eq write_PORTB_def
        dtoa_trace_def)
  finally show ?thesis .
qed

lemma WriteDtoASample_Some_first:
  assumes r: "WriteDtoASample cs spsr V s = Some s'"
  shows "\<exists>k1 k2. first_SPIF spsr (Suc (nreads s)) k1 \<and> first_SPIF spsr (Suc (Suc k1)) k2"
proof -
  define s3 where "s3 = write_SPDR (ucast (drop_bit 8 (push_bit 2 V)))
                          (check_collision spsr (write_PORTB (CLEAR_BIT (PORTB s) cs) s))"
  have n3: "nreads s3 = Suc (nreads s)"
    by (simp add: s3_def write_SPDR_def check_collision_eq write_PORTB_def)
  from r obtain s4 where w1: "wait_SPIF spsr s3 = Some s4"
    by (auto simp: WriteDtoASample_def Let_def s3_def[symmetric] split: option.splits)
  from wait_SPIF_Some_first[OF w1] obtain k1 where k1: "first_SPIF spsr (Suc (nreads s)) k1"
    by (auto simp: n3)
  have s4: "s4 = s3\<lparr>nreads := Suc k1, trace := trace s3 @ status_reads spsr (nreads s3) (Suc k1)\<rparr>"
    using wait_SPIF_first[of spsr s3 k1] k1 w1 by (simp add: n3)
  define s6 where "s6 = write_SPDR (ucast (push_bit 2 V)) (check_collision spsr s4)"
  have n6: "nreads s6 = Suc (Suc k1)"
    by (simp add: s6_def s4 write_SPDR_def check_collision_eq)
  from r w1 obtain s7 where w2: "wait_SPIF spsr s6 = Some s7"
    by (auto simp: WriteDtoASample_def Let_def s3_def[symmetric] s6_def[symmetric]
        split: option.splits)
  from wait_SPIF_Some_first[OF w2] obtain k2 where "first_SPIF spsr (Suc (Suc k1)) k2"
    by (auto simp: n6)
  with k1 show ?thesis
    by blast
qed

subsection \<open>The two bytes of a 12-bit sample\<close>

lemma shifted_sample:
  assumes "unat (V::u16) < 2 ^ 12"
  shows "unat (push_bit 2 V) = 4 * unat V"
proof -
  have "unat (push_bit 2 V) = (unat V * 4) mod 2 ^ 16"
    by (simp add: push_bit_eq_mult unat_word_ariths)
  also have "\<dots> = 4 * unat V"
    using assms by simp
  finally show ?thesis .
qed

lemma of_nat_mod_256: "(of_nat (n mod 256) :: u8) = of_nat n"
  unfolding word_of_nat_eq_iff by (simp add: take_bit_eq_mod)

lemma msb_byte:
  assumes "unat (V::u16) < 2 ^ 12"
  shows "(ucast (drop_bit 8 (push_bit 2 V)) :: u8) = of_nat (4 * unat V div 256)"
proof -
  have "unat (drop_bit 8 (push_bit 2 V)) = drop_bit 8 (unat (push_bit 2 V))"
    by (rule unat_drop_bit_eq)
  also have "\<dots> = drop_bit 8 (4 * unat V)"
    by (simp only: shifted_sample[OF assms])
  also have "\<dots> = 4 * unat V div 256"
    by (simp add: drop_bit_eq_div)
  finally have "unat (drop_bit 8 (push_bit 2 V)) = 4 * unat V div 256" .
  then show ?thesis
    by (metis of_nat_unat)
qed

lemma lsb_byte:
  assumes "unat (V::u16) < 2 ^ 12"
  shows "(ucast (push_bit 2 V) :: u8) = of_nat (4 * unat V mod 256)"
proof -
  have "(ucast (push_bit 2 V) :: u8) = of_nat (unat (push_bit 2 V))"
    by simp
  also have "\<dots> = of_nat (4 * unat V)"
    by (simp only: shifted_sample[OF assms])
  also have "\<dots> = of_nat (4 * unat V mod 256)"
    by (rule of_nat_mod_256[symmetric])
  finally show ?thesis .
qed

lemma select_bits:
  assumes "b < 8"
  shows "\<not> bit (CLEAR_BIT port b) b" and "bit (SET_BIT port' b) b"
  using assms by (simp_all add: CLEAR_BIT_def SET_BIT_def bit_simps)

lemmas dtoa_eval =
  WriteDtoASample_def Let_def check_collision_def read_SPSR_def write_SPDR_def write_PORTB_def
  SCIWriteString_P_def wait_SPIF_step SPIF_set_def SPIF_def spsr_of_list_def CLEAR_BIT_def
  SET_BIT_def

subsection \<open>The protocol\<close>

text \<open>
  Claim C5, as stated, has the write-collision flag polled before and after each of the
  two byte transfers. The code polls it twice: before the first byte, and between the two
  bytes. After the second byte the status register is only read for the transfer-complete
  flag. In the run below the last status read shows both flags (0xC0) and nothing is
  reported.
\<close>

theorem C5_no_collision_check_after_second_byte:
  "WriteDtoASample 4 (spsr_of_list [0x00, 0x80, 0x00, 0xC0] 0x00) 0x0ABC
       \<lparr>PORTB = 0xFF, nreads = 0, trace = []\<rparr> =
     Some \<lparr>PORTB = 0xFF, nreads = 4,
           trace = [PORTB_write 0xEF, SPSR_read 0x00, SPDR_write 0x2A, SPSR_read 0x80,
                    SPSR_read 0x00, SPDR_write 0xF0, SPSR_read 0xC0, PORTB_write 0xFF]\<rparr> \<and>
   WCOL_set 0xC0 \<and> SPIF_set 0xC0"
  by (simp add: dtoa_eval WCOL_set_def)

text \<open>
  Claim C5, amended. Given a 12-bit sample, a select bit within the port, and a status
  register that shows the transfer-complete flag after each byte (first at read \<open>k1\<close>, then
  at read \<open>k2\<close>), the sample write returns and its hardware accesses are, in order: the
  select line asserted (bit cleared); one status read, with a report if it shows a write
  collision; the most significant byte of the sample shifted left by 2; status reads up to
  the first that shows the flag; one status read, with a report if it shows a write
  collision; the least significant byte; status reads up to the first that shows the flag;
  the select line deasserted (bit set). A report does not change what follows. No collision
  check follows the second byte.
\<close>

theorem C5_sample_write_protocol:
  assumes "unat Value < 2 ^ 12"
    and "D2A_CS_BIT < 8"
    and "first_SPIF spsr (Suc (nreads s)) k1"
    and "first_SPIF spsr (Suc (Suc k1)) k2"
  shows "WriteDtoASample D2A_CS_BIT spsr Value s =
           Some \<lparr>PORTB = SET_BIT (CLEAR_BIT (PORTB s) D2A_CS_BIT) D2A_CS_BIT, nreads = Suc k2,
                 trace = trace s @
                   dtoa_trace D2A_CS_BIT spsr (PORTB s) (of_nat (4 * unat Value div 256))
                     (of_nat (4 * unat Value mod 256)) (nreads s) k1 k2\<rparr> \<and>
         \<not> bit (CLEAR_BIT (PORTB s) D2A_CS_BIT) D2A_CS_BIT \<and>
         bit (SET_BIT (CLEAR_BIT (PORTB s) D2A_CS_BIT) D2A_CS_BIT) D2A_CS_BIT"
  using WriteDtoASample_run[OF assms(3,4), of D2A_CS_BIT Value] select_bits[OF assms(2)]
  by (simp only: msb_byte[OF assms(1)] lsb_byte[OF assms(1)] simp_thms)

theorem C5_sample_write_protocol_witness:
  "unat (0x0ABC::u16) < 2 ^ 12 \<and> (4::nat) < 8 \<and>
   first_SPIF (spsr_of_list [0x40, 0x00, 0x80, 0x00, 0x80] 0x00) 1 2 \<and>
   first_SPIF (spsr_of_list [0x40, 0x00, 0x80, 0x00, 0x80] 0x00) 4 4 \<and>
   WriteDtoASample 4 (spsr_of_list [0x40, 0x00, 0x80, 0x00, 0x80] 0x00) 0x0ABC
       \<lparr>PORTB = 0xFF, nreads = 0, trace = []\<rparr> =
     Some \<lparr>PORTB = 0xFF, nreads = 5,
           trace = [PORTB_write 0xEF, SPSR_read 0x40, SCI_write collision_msg,
                    SPDR_write 0x2A, SPSR_read 0x00, SPSR_read 0x80,
                    SPSR_read 0x00, SPDR_write 0xF0, SPSR_read 0x80, PORTB_write 0xFF]\<rparr>"
proof -
  let ?spsr = "spsr_of_list [0x40, 0x00, 0x80, 0x00, 0x80] 0x00"
  have v: "unat (0x0ABC::u16) < 2 ^ 12" and b: "(4::nat) < 8"
    by simp_all
  have k1: "first_SPIF ?spsr (Suc (nreads \<lparr>PORTB = 0xFF, nreads = 0, trace = []\<rparr>)) 2"
    by (simp add: first_SPIF_def SPIF_set_def SPIF_def spsr_of_list_def)
  have k2: "first_SPIF ?spsr (Suc (Suc 2)) 4"
    by (simp add: first_SPIF_def SPIF_set_def SPIF_def spsr_of_list_def)
  from C5_sample_write_protocol [OF v b k1 k2] k1 k2 show ?thesis
    by (simp add: dtoa_trace_def status_reads_def collision_report_def WCOL_set_def
        spsr_of_list_def CLEAR_BIT_def SET_BIT_def upt_rec[of "Suc 0"] upt_rec[of 2] upt_rec[of 3]
        upt_rec[of 4] upt_rec[of 5] numeral_2_eq_2[symmetric])
qed

subsection \<open>Termination of the waits\<close>

text \<open>
  Claim C9, as stated, has each wait loop terminate. The loops have no bound of their
  own: with a status register that never shows the transfer-complete flag, the sample
  write does not return.
\<close>

theorem C9_no_return_without_flag:
  "WriteDtoASample 4 (spsr_of_list [0x00, 0x40] 0x00) 0x0ABC
       \<lparr>PORTB = 0xFF, nreads = 0, trace = []\<rparr> = None"
proof (cases "WriteDtoASample 4 (spsr_of_list [0x00, 0x40] 0x00) 0x0ABC
       \<lparr>PORTB = 0xFF, nreads = 0, trace = []\<rparr>")
  case None
  then show ?thesis .
next
  case (Some s')
  from WriteDtoASample_Some_first[OF Some] obtain k1
    where "first_SPIF (spsr_of_list [0x00, 0x40] 0x00) (Suc 0) k1"
    by auto
  then have "SPIF_set (spsr_of_list [0x00, 0x40] 0x00 k1)" and "Suc 0 \<le> k1"
    by (simp_all add: first_SPIF_def)
  then have False
    by (cases "k1 = 1") (simp_all add: spsr_of_list_def SPIF_set_def SPIF_def)
  then show ?thesis ..
qed

text \<open>
  Claim C9, amended. The LCD operations are total functions. The sample write returns
  exactly when the status register shows the transfer-complete flag after each of the two
  bytes; each wait then ends at the first status read that shows the flag, so the number of
  status reads is set by the hardware, and the code puts no bound on it.
\<close>

theorem C9_waits_end_when_flag_shows:
  "((\<exists>s'. WriteDtoASample cs spsr V s = Some s') \<longleftrightarrow>
      (\<exists>k1 k2. first_SPIF spsr (Suc (nreads s)) k1 \<and> first_SPIF spsr (Suc (Suc k1)) k2)) \<and>
   (\<forall>k1 k2. first_SPIF spsr (Suc (nreads s)) k1 \<and> first_SPIF spsr (Suc (Suc k1)) k2 \<longrightarrow>
      map_option nreads (WriteDtoASample cs spsr V s) = Some (Suc k2))"
proof (intro conjI iffI allI impI)
  assume "\<exists>s'. WriteDtoASample cs spsr V s = Some s'"
  then show "\<exists>k1 k2. first_SPIF spsr (Suc (nreads s)) k1 \<and> first_SPIF spsr (Suc (Suc k1)) k2"
    using WriteDtoASample_Some_first by blast
next
  assume "\<exists>k1 k2. first_SPIF spsr (Suc (nreads s)) k1 \<and> first_SPIF spsr (Suc (Suc k1)) k2"
  then show "\<exists>s'. WriteDtoASample cs spsr V s = Some s'"
    using WriteDtoASample_run by blast
next
  fix k1 k2
  assume "first_SPIF spsr (Suc (nreads s)) k1 \<and> first_SPIF spsr (Suc (Suc k1)) k2"
  then have k1: "first_SPIF spsr (Suc (nreads s)) k1" and k2: "first_SPIF spsr (Suc (Suc k1)) k2"
    by simp_all
  show "map_option nreads (WriteDtoASample cs spsr V s) = Some (Suc k2)"
    by (simp add: WriteDtoASample_run[OF k1 k2])
qed

theorem C9_waits_end_when_flag_shows_witness:
  "first_SPIF (spsr_of_list [0x00, 0x00, 0x00, 0x80, 0x00, 0x80] 0x00) 1 3 \<and>
   first_SPIF (spsr_of_list [0x00, 0x00, 0x00, 0x80, 0x00, 0x80] 0x00) 5 5 \<and>
   map_option nreads
     (WriteDtoASample 4 (spsr_of_list [0x00, 0x00, 0x00, 0x80, 0x00, 0x80] 0x00) 0x0ABC
        \<lparr>PORTB = 0xFF, nreads = 0, trace = []\<rparr>) = Some 6"
proof -
  let ?spsr = "spsr_of_list [0x00, 0x00, 0x00, 0x80, 0x00, 0x80] 0x00"
  have k1: "first_SPIF ?spsr (Suc (nreads \<lparr>PORTB = 0xFF, nreads = 0, trace = []\<rparr>)) 3"
    by (simp add: first_SPIF_def SPIF_set_def SPIF_def spsr_of_list_def atLeastLessThan_upt
        upt_rec[of "Suc 0"] upt_rec[of 2] upt_rec[of 3] numeral_2_eq_2[symmetric])
  have k2: "first_SPIF ?spsr (Suc (Suc 3)) 5"
    by (simp add: first_SPIF_def SPIF_set_def SPIF_def spsr_of_list_def)
  have "map_option nreads
          (WriteDtoASample 4 ?spsr 0x0ABC \<lparr>PORTB = 0xFF, nreads = 0, trace = []\<rparr>) =
        Some (Suc 5)"
    using C9_waits_end_when_flag_shows
            [of 4 ?spsr "0x0ABC" "\<lparr>PORTB = 0xFF, nreads = 0, trace = []\<rparr>"] k1 k2
    by blast
  with k1 k2 show ?thesis
    by simp
qed

end
